theory Spec2Isabelle
  imports Complex_Main "HOL-Library.Sublist"
begin

section \<open>Data model\<close>

text \<open>
  The dashboard's \<^verbatim>\<open>TelemetryPoint\<close> and \<^verbatim>\<open>ChartDomain\<close> interfaces. A JavaScript
  \<^verbatim>\<open>number\<close> is modelled as a real: arithmetic is exact, and the values NaN and
  \<open>\<plusminus>\<close>Infinity, like rounding, are outside the model. Lengths, indices and point
  budgets are natural numbers.
\<close>

record TelemetryPoint =
  t :: real
  speed :: real
  current :: real
  temp :: real

record ChartDomain =
  xMin :: real
  xMax :: real
  yMin :: real
  yMax :: real

section \<open>Ingestion buffer\<close>

subsection \<open>The hook's \<^verbatim>\<open>pushPoint\<close> (useTelemetry.ts)\<close>



subsection \<open>The dashboard's batched flush (\<^verbatim>\<open>generateMockData\<close>, \<^verbatim>\<open>ws.onmessage\<close>)\<close>


record 'a buffer =
  data :: "'a list"
  pendingData :: "'a list"

definition emptyBuffer :: "'a buffer" where
  "emptyBuffer = \<lparr>data = [], pendingData = []\<rparr>"

text \<open>\<^verbatim>\<open>pendingDataRef.current.push(point)\<close>\<close>

definition pushPending :: "'a buffer \<Rightarrow> 'a \<Rightarrow> 'a buffer" where
  "pushPending b p = b\<lparr>pendingData := pendingData b @ [p]\<rparr>"








section \<open>Downsampling\<close>

subsection \<open>\<^verbatim>\<open>downsampleLTTB\<close>\<close>

text \<open>
  The inner loop over the next bucket: the sums of \<open>t\<close> and \<open>speed\<close> and the count, divided
  only when the count is positive.
\<close>

definition nextBucketAverage :: "TelemetryPoint list \<Rightarrow> nat \<Rightarrow> nat \<Rightarrow> real \<times> real" where
  "nextBucketAverage points nextBucketStart nextBucketEnd =
     (let js = [nextBucketStart..<nextBucketEnd];
          avgNextX = fold (\<lambda>j a. a + t (points ! j)) js 0;
          avgNextY = fold (\<lambda>j a. a + speed (points ! j)) js 0;
          nextBucketLength = length js
      in if nextBucketLength > 0
         then (avgNextX / real nextBucketLength, avgNextY / real nextBucketLength)
         else (avgNextX, avgNextY))"

definition triangleArea :: "TelemetryPoint \<Rightarrow> real \<Rightarrow> real \<Rightarrow> TelemetryPoint \<Rightarrow> real" where
  "triangleArea prevPoint avgNextX avgNextY p =
     \<bar>(t prevPoint - avgNextX) * (speed p - speed prevPoint)
        - (t prevPoint - t p) * (avgNextY - speed prevPoint)\<bar> * 0.5"

text \<open>
  The inner loop over the current bucket, from \<^verbatim>\<open>maxArea = -1, maxAreaIndex = bucketStart\<close>;
  the result is the final \<^verbatim>\<open>maxAreaIndex\<close>.
\<close>

definition areaStep ::
  "TelemetryPoint list \<Rightarrow> TelemetryPoint \<Rightarrow> real \<Rightarrow> real \<Rightarrow> nat \<Rightarrow> real \<times> nat \<Rightarrow> real \<times> nat" where
  "areaStep points prevPoint avgNextX avgNextY j acc =
     (let area = triangleArea prevPoint avgNextX avgNextY (points ! j)
      in if area > fst acc then (area, j) else acc)"

definition selectMaxArea ::
  "TelemetryPoint list \<Rightarrow> TelemetryPoint \<Rightarrow> real \<Rightarrow> real \<Rightarrow> nat \<Rightarrow> nat \<Rightarrow> nat" where
  "selectMaxArea points prevPoint avgNextX avgNextY bucketStart bucketEnd =
     snd (fold (areaStep points prevPoint avgNextX avgNextY) [bucketStart..<bucketEnd]
            (- 1, bucketStart))"

text \<open>
  \<^verbatim>\<open>Math.floor(k * bucketSize) + 1\<close>, the index at which bucket \<open>k\<close> starts and bucket
  \<open>k - 1\<close> ends. \<^verbatim>\<open>Math.floor\<close> of a non-negative product is read as a natural number.
\<close>

definition bucketBoundary :: "real \<Rightarrow> nat \<Rightarrow> nat" where
  "bucketBoundary bucketSize k = nat \<lfloor>real k * bucketSize\<rfloor> + 1"

text \<open>
  One iteration of the outer loop, for the bucket \<open>bucketIndex\<close> (the loop counter \<open>i\<close> is
  \<open>bucketIndex + 1\<close>).
\<close>

definition lttbIteration ::
  "TelemetryPoint list \<Rightarrow> real \<Rightarrow> nat \<Rightarrow> TelemetryPoint list \<Rightarrow> TelemetryPoint list" where
  "lttbIteration points bucketSize bucketIndex sampled =
     (let bucketStart = bucketBoundary bucketSize bucketIndex;
          bucketEnd = bucketBoundary bucketSize (bucketIndex + 1);
          nextBucketStart = bucketBoundary bucketSize (bucketIndex + 1);
          nextBucketEnd = min (bucketBoundary bucketSize (bucketIndex + 2))
                              (length points - 1);
          (avgNextX, avgNextY) = nextBucketAverage points nextBucketStart nextBucketEnd;
          prevPoint = last sampled;
          maxAreaIndex = selectMaxArea points prevPoint avgNextX avgNextY bucketStart bucketEnd
      in sampled @ [points ! maxAreaIndex])"

text \<open>
  Past the guard the input has more than \<open>threshold > 2\<close> points. Every bucket then ends
  at or before the last index and every selected index lies inside the input (lemmas
  \<open>lttb_bucket_inside\<close> and \<open>lttb_indices\<close> below), so no read is \<^verbatim>\<open>undefined\<close>.
\<close>

definition lttbBucketSize :: "nat \<Rightarrow> nat \<Rightarrow> real" where
  "lttbBucketSize n threshold = (real n - 2) / (real threshold - 2)"

definition downsampleLTTB :: "TelemetryPoint list \<Rightarrow> nat \<Rightarrow> TelemetryPoint list" where
  "downsampleLTTB points threshold =
     (if length points \<le> threshold \<or> threshold \<le> 2 then points
      else
        (let bucketSize = lttbBucketSize (length points) threshold;
             sampled = fold (lttbIteration points bucketSize) [0..<threshold - 2] [points ! 0]
         in sampled @ [points ! (length points - 1)]))"

subsection \<open>\<^verbatim>\<open>downsampleMinMax\<close>\<close>

definition channelSum :: "TelemetryPoint \<Rightarrow> real" where
  "channelSum p = speed p + current p + temp p"

text \<open>The scan of one bucket; the accumulator is (minPoint, maxPoint, minValue, maxValue).\<close>

definition scanStep ::
  "TelemetryPoint \<Rightarrow> TelemetryPoint \<times> TelemetryPoint \<times> real \<times> real
     \<Rightarrow> TelemetryPoint \<times> TelemetryPoint \<times> real \<times> real" where
  "scanStep point acc =
     (case acc of (minPoint, maxPoint, minValue, maxValue) \<Rightarrow>
        (let v = channelSum point
         in (if v < minValue then point else minPoint,
             if v > maxValue then point else maxPoint,
             if v < minValue then v else minValue,
             if v > maxValue then v else maxValue)))"

definition scanBucket ::
  "TelemetryPoint \<Rightarrow> TelemetryPoint list \<Rightarrow> TelemetryPoint \<times> TelemetryPoint \<times> real \<times> real" where
  "scanBucket p0 bucket = fold scanStep bucket (p0, p0, channelSum p0, channelSum p0)"

text \<open>
  What one bucket pushes. An empty bucket makes \<^verbatim>\<open>bucket[0].speed\<close> throw a TypeError: the
  result \<open>None\<close>.
\<close>

fun bucketOutput :: "TelemetryPoint list \<Rightarrow> TelemetryPoint list option" where
  "bucketOutput [] = None"
| "bucketOutput [p] = Some [p]"
| "bucketOutput (p0 # rest) =
     (case scanBucket p0 (p0 # rest) of (minPoint, maxPoint, minValue, maxValue) \<Rightarrow>
        if t minPoint < t maxPoint then Some [minPoint, maxPoint]
        else Some [maxPoint, minPoint])"

text \<open>\<^verbatim>\<open>data.slice(i, j)\<close> for \<open>0 \<le> i\<close> and \<open>j \<le> length\<close>.\<close>

definition slice :: "'a list \<Rightarrow> nat \<Rightarrow> nat \<Rightarrow> 'a list" where
  "slice xs i j = take (j - i) (drop i xs)"

text \<open>
  The loop \<^verbatim>\<open>for (let i = 0; i < data.length; i += bucketSize)\<close>. With \<open>bucketSize = 0\<close> the
  bucket is empty and the first iteration throws, so every call returns.
\<close>

function minMaxLoop ::
  "TelemetryPoint list \<Rightarrow> nat \<Rightarrow> nat \<Rightarrow> TelemetryPoint list \<Rightarrow> TelemetryPoint list option" where
  "minMaxLoop points bucketSize i downsampled =
     (if i < length points then
        (if bucketSize = 0 then None
         else (case bucketOutput (slice points i (min (i + bucketSize) (length points))) of
                 None \<Rightarrow> None
               | Some out \<Rightarrow> minMaxLoop points bucketSize (i + bucketSize) (downsampled @ out)))
      else Some downsampled)"
  by pat_completeness auto
termination
  by (relation "measure (\<lambda>(points, bucketSize, i, downsampled). length points - i)") auto

text \<open>
  \<^verbatim>\<open>Math.ceil(data.length / targetPoints)\<close>. Past the guard the input is non-empty, so for
  \<open>targetPoints = 0\<close> the quotient is \<^verbatim>\<open>Infinity\<close>: the one bucket is the whole input and the
  loop ends after it, as it does with any step of at least the input's length.
\<close>

definition minMaxBucketSize :: "nat \<Rightarrow> nat \<Rightarrow> nat" where
  "minMaxBucketSize n targetPoints =
     (if targetPoints = 0 then n else nat \<lceil>real n / real targetPoints\<rceil>)"

definition downsampleMinMax :: "TelemetryPoint list \<Rightarrow> nat \<Rightarrow> TelemetryPoint list option" where
  "downsampleMinMax points targetPoints =
     (if length points \<le> targetPoints then Some points
      else minMaxLoop points (minMaxBucketSize (length points) targetPoints) 0 [])"


section \<open>Viewport\<close>

text \<open>
  The dashboard state the viewport handlers read and write: \<^verbatim>\<open>chartDomain\<close> (null until set),
  \<^verbatim>\<open>followTail\<close>, \<^verbatim>\<open>isDragging\<close> and \<^verbatim>\<open>dragStart\<close> (the pointer's x and a copy of the
  domain at mouse-down). A bounding rectangle is its \<open>(left, width)\<close>, or \<open>None\<close> when the
  chart container is not mounted. The repository holds two variants of the dashboard page;
  where their handlers differ, those of the second variant carry the suffix \<open>_001\<close>.
\<close>

record viewport =
  chartDomain :: "ChartDomain option"
  followTail :: bool
  isDragging :: bool
  dragStart :: "(real \<times> ChartDomain) option"



text \<open>\<^verbatim>\<open>Math.min(...data.map((d) => d.t))\<close> and its maximum, read on non-empty data only.\<close>

definition minT :: "TelemetryPoint list \<Rightarrow> real" where
  "minT points = Min (set (map t points))"

definition maxT :: "TelemetryPoint list \<Rightarrow> real" where
  "maxT points = Max (set (map t points))"

subsection \<open>Domain initialisation effect\<close>

definition initialDomain :: "bool \<Rightarrow> TelemetryPoint list \<Rightarrow> ChartDomain" where
  "initialDomain follow points =
     \<lparr>xMin = (if follow then max 0 (maxT points - 30) else minT points),
      xMax = maxT points, yMin = 0, yMax = 100\<rparr>"

text \<open>
  The effect's body in the first dashboard variant (\<^verbatim>\<open>if (data.length > 0)\<close>), and when
  React runs it: after a render in which its one dependency, \<^verbatim>\<open>data.length\<close>, has changed.
\<close>

definition initDomainEffect :: "TelemetryPoint list \<Rightarrow> viewport \<Rightarrow> viewport" where
  "initDomainEffect points v =
     (if length points > 0
      then v\<lparr>chartDomain := Some (initialDomain (followTail v) points)\<rparr>
      else v)"

definition afterDataChange :: "TelemetryPoint list \<Rightarrow> TelemetryPoint list \<Rightarrow> viewport \<Rightarrow> viewport" where
  "afterDataChange prevPoints points v =
     (if length points \<noteq> length prevPoints then initDomainEffect points v else v)"

text \<open>
  The effect's body in the second variant (\<^verbatim>\<open>if (telemetry.data.length > 0 && !chartDomain)\<close>);
  it runs after every change of the data, the domain or \<^verbatim>\<open>followTail\<close>.
\<close>

definition initDomainEffect_001 :: "TelemetryPoint list \<Rightarrow> viewport \<Rightarrow> viewport" where
  "initDomainEffect_001 points v =
     (if length points > 0 \<and> chartDomain v = None
      then v\<lparr>chartDomain := Some (initialDomain (followTail v) points)\<rparr>
      else v)"

subsection \<open>Zoom: \<^verbatim>\<open>handleWheel\<close>\<close>









subsection \<open>Pan: \<^verbatim>\<open>handleMouseDown\<close>, \<^verbatim>\<open>handleMouseMove\<close>, \<^verbatim>\<open>handleMouseUp\<close>\<close>






subsection \<open>Sequences of zoom and pan events\<close>








section \<open>Connection manager: \<^verbatim>\<open>ws.onclose\<close>\<close>

text \<open>
  The state the close handler reads and writes: \<^verbatim>\<open>wsStatus.connected\<close>, whether the heartbeat
  interval runs, \<^verbatim>\<open>isMockMode\<close> and \<^verbatim>\<open>reconnectAttemptsRef.current\<close>. The handler's second
  result is the reconnect it schedules, as the delay in milliseconds. The constant
  \<^verbatim>\<open>MOCK_DATA_ENABLED\<close> (\<^verbatim>\<open>true\<close> in the source) is a parameter.
\<close>

record connection =
  connected :: bool
  heartbeat :: bool
  isMockMode :: bool
  reconnectAttempts :: nat

definition backoffDelay :: "nat \<Rightarrow> nat" where
  "backoffDelay attempts = min (1000 * 2 ^ attempts) 30000"

definition onclose :: "bool \<Rightarrow> connection \<Rightarrow> connection \<times> nat option" where
  "onclose MOCK_DATA_ENABLED c =
     (let c1 = c\<lparr>connected := False, heartbeat := False\<rparr>
      in if MOCK_DATA_ENABLED \<and> \<not> isMockMode c then (c1\<lparr>isMockMode := True\<rparr>, None)
         else
           (let delay = backoffDelay (reconnectAttempts c);
                c2 = c1\<lparr>reconnectAttempts := reconnectAttempts c + 1\<rparr>
            in if reconnectAttempts c2 < 3 then (c2, Some delay)
               else if MOCK_DATA_ENABLED then (c2\<lparr>isMockMode := True\<rparr>, None)
               else (c2, None)))"

section \<open>Synthetic generator: \<^verbatim>\<open>generateMockData\<close>\<close>

definition MOCK_DATA_INTERVAL :: real where
  "MOCK_DATA_INTERVAL = 50"

text \<open>
  The three draws of \<^verbatim>\<open>Math.random()\<close>, each in \<open>[0, 1)\<close>, are parameters, as is the parsed
  playback rate. The state is the simulated clock \<^verbatim>\<open>mockTimeRef.current\<close> and the buffer
  whose pending batch receives the sample; the batch timeout the function then arms runs
  \<open>flush\<close>.
\<close>

definition noise :: "real \<Rightarrow> real \<Rightarrow> real" where
  "noise r width = (r - 0.5) * width"

definition generateMockData ::
  "bool \<Rightarrow> real \<Rightarrow> real \<Rightarrow> real \<Rightarrow> real \<Rightarrow> real \<times> TelemetryPoint buffer
     \<Rightarrow> real \<times> TelemetryPoint buffer" where
  "generateMockData isPlaying rate r1 r2 r3 st =
     (if \<not> isPlaying then st
      else
        (let deltaT = (MOCK_DATA_INTERVAL / 1000) * rate;
             mockTime = fst st + deltaT;
             baseSpeed = 30 + sin (mockTime * 0.1) * 15;
             baseCurrent = 60 + sin (mockTime * 0.15) * 25;
             baseTemp = 50 + sin (mockTime * 0.05) * 20;
             point = \<lparr>t = mockTime,
                      speed = max 0 (baseSpeed + noise r1 5),
                      current = max 0 (baseCurrent + noise r2 10),
                      temp = max 0 (baseTemp + noise r3 8)\<rparr>
         in (mockTime, pushPending (snd st) point)))"


section \<open>Example inputs\<close>

definition pt :: "real \<Rightarrow> real \<Rightarrow> TelemetryPoint" where
  "pt time v = \<lparr>t = time, speed = v, current = 0, temp = 0\<rparr>"

text \<open>Ten points at \<open>t = 0, \<dots>, 9\<close>.\<close>

definition tenPoints :: "TelemetryPoint list" where
  "tenPoints = [pt 0 1, pt 1 5, pt 2 2, pt 3 8, pt 4 3, pt 5 9, pt 6 1, pt 7 4, pt 8 7, pt 9 2]"

text \<open>Twelve points at \<open>t = 0, \<dots>, 11\<close>; neither the first nor the last is extreme in its bucket of three.\<close>

definition twelvePoints :: "TelemetryPoint list" where
  "twelvePoints = [pt 0 2, pt 1 1, pt 2 3, pt 3 2, pt 4 1, pt 5 3,
                   pt 6 2, pt 7 1, pt 8 3, pt 9 1, pt 10 3, pt 11 2]"

text \<open>Seven points with the same channel sum.\<close>

definition flatPoints :: "TelemetryPoint list" where
  "flatPoints = [pt 0 1, pt 1 1, pt 2 1, pt 3 1, pt 4 1, pt 5 1, pt 6 1]"




section \<open>Buffer bound and eviction order\<close>
















section \<open>Reconnect backoff\<close>

lemma backoffDelay_values:
  "backoffDelay 0 = 1000" "backoffDelay 1 = 2000" "backoffDelay 2 = 4000"
  by (simp_all add: backoffDelay_def)

text \<open>
  Claim C3. The delay computed for the attempt counter \<open>a\<close> is \<open>min (1000 * 2 ^ a) 30000\<close>:
  1000, 2000 and 4000 ms for the counters 0, 1 and 2. With the fallback disabled a close at
  counter 0 or 1 increments the counter and schedules the reconnect after that delay. A
  close that takes the counter to 3 or beyond schedules no reconnect; the handler then
  leaves the connection in mock mode (Degraded) if the fallback is enabled, and otherwise
  disconnected with \<open>isMockMode\<close> as it was.
\<close>

theorem backoff_sequence:
  "backoffDelay 0 = 1000 \<and> backoffDelay 1 = 2000 \<and> backoffDelay 2 = 4000
   \<and> backoffDelay a = min (1000 * 2 ^ a) 30000
   \<and> (reconnectAttempts c < 2 \<longrightarrow>
        onclose False c =
          (c\<lparr>connected := False, heartbeat := False,
             reconnectAttempts := reconnectAttempts c + 1\<rparr>,
           Some (backoffDelay (reconnectAttempts c))))
   \<and> (2 \<le> reconnectAttempts c' \<longrightarrow>
        snd (onclose True c') = None
        \<and> isMockMode (fst (onclose True c'))
        \<and> onclose False c' =
            (c'\<lparr>connected := False, heartbeat := False,
                reconnectAttempts := reconnectAttempts c' + 1\<rparr>, None)
        \<and> isMockMode (fst (onclose False c')) = isMockMode c'
        \<and> \<not> connected (fst (onclose False c')))"
proof -
  have a: "reconnectAttempts c < 2 \<longrightarrow>
        onclose False c =
          (c\<lparr>connected := False, heartbeat := False,
             reconnectAttempts := reconnectAttempts c + 1\<rparr>,
           Some (backoffDelay (reconnectAttempts c)))"
    by (simp add: onclose_def Let_def)
  have b: "2 \<le> reconnectAttempts c' \<longrightarrow>
        snd (onclose True c') = None \<and> isMockMode (fst (onclose True c'))"
    by (simp add: onclose_def Let_def)
  have c: "2 \<le> reconnectAttempts c' \<longrightarrow>
        onclose False c' =
            (c'\<lparr>connected := False, heartbeat := False,
                reconnectAttempts := reconnectAttempts c' + 1\<rparr>, None)"
    by (simp add: onclose_def Let_def)
  have d: "2 \<le> reconnectAttempts c' \<longrightarrow>
        isMockMode (fst (onclose False c')) = isMockMode c'
        \<and> \<not> connected (fst (onclose False c'))"
    by (simp add: onclose_def Let_def)
  have e: "backoffDelay a = min (1000 * 2 ^ a) 30000"
    by (simp add: backoffDelay_def)
  from a b c d e backoffDelay_values show ?thesis by blast
qed

theorem backoff_sequence_witness:
  "reconnectAttempts \<lparr>connected = True, heartbeat = True, isMockMode = False,
                      reconnectAttempts = 1\<rparr> < 2
   \<and> 2 \<le> reconnectAttempts \<lparr>connected = True, heartbeat = True, isMockMode = False,
                              reconnectAttempts = 2\<rparr>
   \<and> onclose False \<lparr>connected = True, heartbeat = True, isMockMode = False,
                     reconnectAttempts = 1\<rparr>
       = (\<lparr>connected = False, heartbeat = False, isMockMode = False, reconnectAttempts = 2\<rparr>,
          Some 2000)
   \<and> onclose False \<lparr>connected = True, heartbeat = True, isMockMode = False,
                     reconnectAttempts = 2\<rparr>
       = (\<lparr>connected = False, heartbeat = False, isMockMode = False, reconnectAttempts = 3\<rparr>,
          None)"
  using backoff_sequence [of 1
      "\<lparr>connected = True, heartbeat = True, isMockMode = False, reconnectAttempts = 1\<rparr>"
      "\<lparr>connected = True, heartbeat = True, isMockMode = False, reconnectAttempts = 2\<rparr>"]
  by simp

section \<open>Pan keeps the span\<close>




section \<open>Domain initialisation\<close>

text \<open>The second variant's effect leaves a domain that is set alone, whatever the data.\<close>

lemma initDomainEffect_001_once:
  "chartDomain v = Some d \<Longrightarrow> initDomainEffect_001 points v = v"
  by (simp add: initDomainEffect_001_def)

text \<open>
  Claim C7 fails on the first variant, whose effect has no \<open>chartDomain\<close> guard and depends
  on \<^verbatim>\<open>data.length\<close>: with the domain panned to \<open>[5, 35]\<close> and follow-tail off, the
  arrival of a fourth sample (\<open>t = 60\<close>) after three (\<open>t = 0, 20, 40\<close>) runs the
  initialisation again and replaces the domain by \<open>[0, 60]\<close>. The second variant keeps the
  domain on the same input.
\<close>

theorem initDomainEffect_refires:
  "chartDomain (afterDataChange
      [pt 0 2, pt 20 2, pt 40 2]
      [pt 0 2, pt 20 2, pt 40 2, pt 60 2]
      \<lparr>chartDomain = Some \<lparr>xMin = 5, xMax = 35, yMin = 0, yMax = 100\<rparr>,
       followTail = False, isDragging = False, dragStart = None\<rparr>)
     = Some \<lparr>xMin = 0, xMax = 60, yMin = 0, yMax = 100\<rparr>
   \<and> chartDomain (initDomainEffect_001
      [pt 0 2, pt 20 2, pt 40 2, pt 60 2]
      \<lparr>chartDomain = Some \<lparr>xMin = 5, xMax = 35, yMin = 0, yMax = 100\<rparr>,
       followTail = False, isDragging = False, dragStart = None\<rparr>)
     = Some \<lparr>xMin = 5, xMax = 35, yMin = 0, yMax = 100\<rparr>"
  by (simp add: afterDataChange_def initDomainEffect_def initDomainEffect_001_def
      initialDomain_def minT_def maxT_def pt_def)

section \<open>Synthetic generator\<close>

lemma noise_range:
  assumes r: "0 \<le> r" "r < 1" and w: "0 < w"
  shows "- (w / 2) \<le> noise r w \<and> noise r w < w / 2"
proof -
  have "noise r w = r * w - w / 2" by (simp add: noise_def algebra_simps)
  moreover have "0 \<le> r * w" using r w by simp
  moreover have "r * w < w" using r w by simp
  ultimately show ?thesis by linarith
qed

text \<open>
  Claim C8, as amended. A tick while playing advances the simulated clock by \<open>0.05 * rate\<close>
  and appends one sample to the pending batch, stamped with the new clock, whose channels
  are \<open>max 0 (base + sin (clock * freq) * amplitude + noise)\<close> for (base, freq, amplitude) =
  (30, 0.1, 15), (60, 0.15, 25), (50, 0.05, 20); a tick while paused changes nothing. The
  noise is \<open>(random - 0.5) * w\<close> for \<open>w\<close> = 5, 10, 8, so it lies in \<open>[-w/2, w/2)\<close>: the
  half-widths are 2.5, 5 and 4, and 5, 10, 8 are the full widths. (That the draws are
  uniformly distributed is outside the model; the draws are parameters.)
\<close>

theorem generateMockData_tick:
  "generateMockData True rate r1 r2 r3 (clock, b) =
     (clock + 0.05 * rate,
      pushPending b
        \<lparr>t = clock + 0.05 * rate,
         speed = max 0 (30 + sin ((clock + 0.05 * rate) * 0.1) * 15 + (r1 - 0.5) * 5),
         current = max 0 (60 + sin ((clock + 0.05 * rate) * 0.15) * 25 + (r2 - 0.5) * 10),
         temp = max 0 (50 + sin ((clock + 0.05 * rate) * 0.05) * 20 + (r3 - 0.5) * 8)\<rparr>)
   \<and> generateMockData False rate r1 r2 r3 (clock, b) = (clock, b)
   \<and> (0 \<le> r \<and> r < 1 \<longrightarrow>
        - 2.5 \<le> noise r 5 \<and> noise r 5 < 2.5
        \<and> - 5 \<le> noise r 10 \<and> noise r 10 < 5
        \<and> - 4 \<le> noise r 8 \<and> noise r 8 < 4)"
proof -
  have a: "generateMockData True rate r1 r2 r3 (clock, b) =
     (clock + 0.05 * rate,
      pushPending b
        \<lparr>t = clock + 0.05 * rate,
         speed = max 0 (30 + sin ((clock + 0.05 * rate) * 0.1) * 15 + (r1 - 0.5) * 5),
         current = max 0 (60 + sin ((clock + 0.05 * rate) * 0.15) * 25 + (r2 - 0.5) * 10),
         temp = max 0 (50 + sin ((clock + 0.05 * rate) * 0.05) * 20 + (r3 - 0.5) * 8)\<rparr>)"
    by (simp add: generateMockData_def MOCK_DATA_INTERVAL_def noise_def Let_def)
  have b: "generateMockData False rate r1 r2 r3 (clock, b) = (clock, b)"
    by (simp add: generateMockData_def)
  have c: "0 \<le> r \<and> r < 1 \<longrightarrow>
        - 2.5 \<le> noise r 5 \<and> noise r 5 < 2.5
        \<and> - 5 \<le> noise r 10 \<and> noise r 10 < 5
        \<and> - 4 \<le> noise r 8 \<and> noise r 8 < 4"
    using noise_range [of r 5] noise_range [of r 10] noise_range [of r 8] by simp
  from a b c show ?thesis by blast
qed

theorem generateMockData_tick_witness:
  "(0::real) \<le> 0 \<and> (0::real) < 1
   \<and> noise 0 5 = - 2.5 \<and> noise 0 10 = - 5 \<and> noise 0 8 = - 4
   \<and> - 2.5 \<le> noise 0 5 \<and> noise 0 5 < 2.5
   \<and> fst (generateMockData True 2 0 0 0 (10, emptyBuffer)) = 10.1"
  using generateMockData_tick [of 2 0 0 0 10 emptyBuffer 0]
  by (simp add: noise_def)

text \<open>
  The claim as stated gives the speed noise the half-width 5: the lowest draw \<open>0\<close> gives
  \<open>-2.5\<close>, and no draw gives a noise beyond \<open>2.5\<close> in absolute value (likewise 5 for the
  current and 4 for the temperature).
\<close>

theorem noise_half_width_counterexample:
  "noise 0 5 = - 2.5
   \<and> \<not> (\<exists>r. 0 \<le> r \<and> r < 1 \<and> 2.5 < \<bar>noise r 5\<bar>)
   \<and> \<not> (\<exists>r. 0 \<le> r \<and> r < 1 \<and> 5 < \<bar>noise r 10\<bar>)
   \<and> \<not> (\<exists>r. 0 \<le> r \<and> r < 1 \<and> 4 < \<bar>noise r 8\<bar>)"
proof -
  have "\<bar>noise r 5\<bar> \<le> 2.5 \<and> \<bar>noise r 10\<bar> \<le> 5 \<and> \<bar>noise r 8\<bar> \<le> 4"
    if "0 \<le> r" "r < 1" for r
    using noise_range [of r 5] noise_range [of r 10] noise_range [of r 8] that by linarith
  moreover have "noise 0 5 = - 2.5" by (simp add: noise_def)
  ultimately show ?thesis by (metis not_less)
qed

section \<open>Min-max bucketing: a bucket of equal sums\<close>

lemma fold_scanStep_const:
  "\<forall>p\<in>set bucket. channelSum p = v \<Longrightarrow> fold scanStep bucket (p0, p0, v, v) = (p0, p0, v, v)"
  by (induction bucket) (simp_all add: scanStep_def)

lemma scanBucket_const:
  "\<forall>p\<in>set bucket. channelSum p = channelSum p0
     \<Longrightarrow> scanBucket p0 bucket = (p0, p0, channelSum p0, channelSum p0)"
  by (simp add: scanBucket_def fold_scanStep_const)

lemma bucketOutput_const:
  assumes "2 \<le> length bucket" and "\<forall>p\<in>set bucket. channelSum p = channelSum (hd bucket)"
  shows "bucketOutput bucket = Some [hd bucket, hd bucket]"
proof -
  from assms(1) obtain p0 p1 rest where b: "bucket = p0 # p1 # rest"
    by (cases bucket; cases "tl bucket") auto
  have "scanBucket p0 (p0 # p1 # rest) = (p0, p0, channelSum p0, channelSum p0)"
    using assms(2) unfolding b by (intro scanBucket_const) simp
  then show ?thesis unfolding b by simp
qed

lemma minMaxLoop_step:
  assumes "i < length points" and "0 < bucketSize"
    and "bucketOutput (slice points i (min (i + bucketSize) (length points))) = Some out"
  shows "minMaxLoop points bucketSize i acc
           = minMaxLoop points bucketSize (i + bucketSize) (acc @ out)"
  using assms by (subst minMaxLoop.simps) simp

lemma minMaxLoop_done:
  "\<not> i < length points \<Longrightarrow> minMaxLoop points bucketSize i acc = Some acc"
  by (subst minMaxLoop.simps) simp

lemma hd_slice: "i < length xs \<Longrightarrow> i < j \<Longrightarrow> hd (slice xs i j) = xs ! i"
  by (simp add: slice_def hd_drop_conv_nth)

text \<open>
  Claim C10. In a bucket of at least two elements whose channel sums are all equal, the
  scan leaves both \<open>minPoint\<close> and \<open>maxPoint\<close> at the bucket's first element, and the bucket
  pushes that element twice in a row; in general, whenever the scan ends with
  \<open>minPoint = maxPoint\<close> the bucket pushes that point twice. The output is then not a
  duplicate-free subset of the input.
\<close>

theorem minMax_bucket_duplicates:
  assumes "i < length points" and "0 < bucketSize"
    and "bucket = slice points i (min (i + bucketSize) (length points))"
    and "2 \<le> length bucket"
  shows "((\<forall>p\<in>set bucket. channelSum p = channelSum (hd bucket)) \<longrightarrow>
           bucketOutput bucket = Some [points ! i, points ! i]
           \<and> minMaxLoop points bucketSize i acc
               = minMaxLoop points bucketSize (i + bucketSize) (acc @ [points ! i, points ! i]))
       \<and> (fst (scanBucket (hd bucket) bucket) = fst (snd (scanBucket (hd bucket) bucket)) \<longrightarrow>
           bucketOutput bucket
             = Some [fst (scanBucket (hd bucket) bucket), fst (scanBucket (hd bucket) bucket)])"
proof -
  have hd: "hd bucket = points ! i"
    using assms(1,2,3) by (simp add: hd_slice)
  have first: "(\<forall>p\<in>set bucket. channelSum p = channelSum (hd bucket)) \<longrightarrow>
           bucketOutput bucket = Some [points ! i, points ! i]
           \<and> minMaxLoop points bucketSize i acc
               = minMaxLoop points bucketSize (i + bucketSize) (acc @ [points ! i, points ! i])"
  proof
    assume eq: "\<forall>p\<in>set bucket. channelSum p = channelSum (hd bucket)"
    have out: "bucketOutput bucket = Some [points ! i, points ! i]"
      using bucketOutput_const [OF assms(4) eq] hd by simp
    with assms(1,2,3) minMaxLoop_step [of i points bucketSize "[points ! i, points ! i]" acc]
    show "bucketOutput bucket = Some [points ! i, points ! i]
           \<and> minMaxLoop points bucketSize i acc
               = minMaxLoop points bucketSize (i + bucketSize) (acc @ [points ! i, points ! i])"
      by simp
  qed
  from assms(4) obtain p0 p1 rest where b: "bucket = p0 # p1 # rest"
    by (cases bucket; cases "tl bucket") auto
  have "fst (scanBucket (hd bucket) bucket) = fst (snd (scanBucket (hd bucket) bucket)) \<longrightarrow>
           bucketOutput bucket
             = Some [fst (scanBucket (hd bucket) bucket), fst (scanBucket (hd bucket) bucket)]"
    unfolding b by (cases "scanBucket p0 (p0 # p1 # rest)") simp
  with first show ?thesis by (rule conjI)
qed

theorem minMax_bucket_duplicates_witness:
  "(0::nat) < length flatPoints \<and> (0::nat) < 3
   \<and> 2 \<le> length (slice flatPoints 0 (min (0 + 3) (length flatPoints)))
   \<and> list_all
        (\<lambda>p. channelSum p = channelSum (hd (slice flatPoints 0 (min (0 + 3) (length flatPoints)))))
        (slice flatPoints 0 (min (0 + 3) (length flatPoints)))
   \<and> bucketOutput (slice flatPoints 0 (min (0 + 3) (length flatPoints))) = Some [pt 0 1, pt 0 1]
   \<and> downsampleMinMax flatPoints 3 = Some [pt 0 1, pt 0 1, pt 3 1, pt 3 1, pt 6 1]
   \<and> \<not> distinct (the (downsampleMinMax flatPoints 3))"
proof -
  have b: "slice flatPoints 0 (min (0 + 3) (length flatPoints)) = [pt 0 1, pt 1 1, pt 2 1]"
    by (simp add: flatPoints_def slice_def)
  have h: "\<forall>p\<in>set (slice flatPoints 0 (min (0 + 3) (length flatPoints))).
         channelSum p = channelSum (hd (slice flatPoints 0 (min (0 + 3) (length flatPoints))))"
    unfolding b by (simp add: channelSum_def pt_def)
  have l: "2 \<le> length (slice flatPoints 0 (min (0 + 3) (length flatPoints)))"
    unfolding b by simp
  have n: "0 < length flatPoints" by (simp add: flatPoints_def)
  have "bucketOutput (slice flatPoints 0 (min (0 + 3) (length flatPoints)))
          = Some [flatPoints ! 0, flatPoints ! 0]"
    using minMax_bucket_duplicates
            [where points = flatPoints and i = 0 and bucketSize = 3 and acc = "[]",
             OF n _ refl l] h
    by simp
  then have o: "bucketOutput (slice flatPoints 0 (min (0 + 3) (length flatPoints)))
          = Some [pt 0 1, pt 0 1]"
    by (simp add: flatPoints_def)
  have d: "downsampleMinMax flatPoints 3 = Some [pt 0 1, pt 0 1, pt 3 1, pt 3 1, pt 6 1]"
    by (simp add: downsampleMinMax_def minMaxBucketSize_def flatPoints_def slice_def
        scanBucket_def scanStep_def channelSum_def pt_def)
  from b h l n o d show ?thesis by (simp add: list_all_iff)
qed

section \<open>Zoom keeps the time under the cursor\<close>








section \<open>Zoom and pan keep the domain valid\<close>

















section \<open>LTTB: the selected indices\<close>

lemma lttbBucketSize_ge_1:
  assumes "threshold < n" and "2 < threshold"
  shows "1 \<le> lttbBucketSize n threshold"
  using assms by (simp add: lttbBucketSize_def)

lemma bucketBoundary_0: "bucketBoundary bs 0 = 1"
  by (simp add: bucketBoundary_def)

lemma bucketBoundary_step:
  assumes "1 \<le> bs"
  shows "bucketBoundary bs k < bucketBoundary bs (Suc k)"
proof -
  have nonneg: "0 \<le> real k * bs" using assms by simp
  have "real k * bs + 1 \<le> real (Suc k) * bs"
    using assms by (simp add: algebra_simps)
  then have "\<lfloor>real k * bs + 1\<rfloor> \<le> \<lfloor>real (Suc k) * bs\<rfloor>"
    by (rule floor_mono)
  then have "\<lfloor>real k * bs\<rfloor> + 1 \<le> \<lfloor>real (Suc k) * bs\<rfloor>"
    by simp
  moreover have "0 \<le> \<lfloor>real k * bs\<rfloor>" using nonneg by simp
  ultimately show ?thesis
    unfolding bucketBoundary_def by linarith
qed

lemma bucketBoundary_mono:
  assumes "1 \<le> bs" and "j \<le> k"
  shows "bucketBoundary bs j \<le> bucketBoundary bs k"
  using assms(2)
proof (induction k)
  case 0
  then show ?case by simp
next
  case (Suc k)
  show ?case
  proof (cases "j = Suc k")
    case True
    then show ?thesis by simp
  next
    case False
    with Suc have "bucketBoundary bs j \<le> bucketBoundary bs k" by simp
    with bucketBoundary_step [OF assms(1), of k] show ?thesis by simp
  qed
qed

lemma bucketBoundary_last:
  assumes "threshold < n" and "2 < threshold"
  shows "bucketBoundary (lttbBucketSize n threshold) (threshold - 2) = n - 1"
proof -
  have "real (threshold - 2) * lttbBucketSize n threshold = real (n - 2)"
    using assms by (simp add: lttbBucketSize_def of_nat_diff)
  then show ?thesis
    using assms by (simp add: bucketBoundary_def)
qed

lemma fold_areaStep_range:
  "snd (fold (areaStep points pp ax ay) [a..<b] acc) = snd acc
   \<or> (a \<le> snd (fold (areaStep points pp ax ay) [a..<b] acc)
      \<and> snd (fold (areaStep points pp ax ay) [a..<b] acc) < b)"
proof (induction b)
  case 0
  show ?case by simp
next
  case (Suc b)
  show ?case
  proof (cases "a \<le> b")
    case False
    then show ?thesis by simp
  next
    case True
    then have "fold (areaStep points pp ax ay) [a..<Suc b] acc
                 = areaStep points pp ax ay b (fold (areaStep points pp ax ay) [a..<b] acc)"
      by simp
    then show ?thesis
      using Suc True by (auto simp: areaStep_def Let_def)
  qed
qed

lemma selectMaxArea_range:
  assumes "bucketStart < bucketEnd"
  shows "bucketStart \<le> selectMaxArea points pp ax ay bucketStart bucketEnd
       \<and> selectMaxArea points pp ax ay bucketStart bucketEnd < bucketEnd"
  using fold_areaStep_range [of points pp ax ay bucketStart bucketEnd "(- 1, bucketStart)"] assms
  by (auto simp: selectMaxArea_def)

text \<open>The index list behind the first \<open>k\<close> iterations of the outer loop.\<close>

lemma lttb_loop_indices:
  assumes "1 \<le> bs"
  shows "\<exists>idxs. fold (lttbIteration points bs) [0..<k] [points ! 0] = map ((!) points) idxs
           \<and> length idxs = Suc k \<and> idxs ! 0 = 0
           \<and> sorted_wrt (<) idxs
           \<and> (\<forall>i\<in>set idxs. i < bucketBoundary bs k)
           \<and> (\<forall>j<k. bucketBoundary bs j \<le> idxs ! Suc j
                    \<and> idxs ! Suc j < bucketBoundary bs (Suc j))"
proof (induction k)
  case 0
  have "fold (lttbIteration points bs) [0..<0] [points ! 0] = map ((!) points) [0]"
    by simp
  moreover have "\<forall>i\<in>set [0::nat]. i < bucketBoundary bs 0"
    by (simp add: bucketBoundary_0)
  ultimately show ?case
    by (intro exI [of _ "[0]"]) simp
next
  case (Suc k)
  then obtain idxs where
    run: "fold (lttbIteration points bs) [0..<k] [points ! 0] = map ((!) points) idxs"
    and len: "length idxs = Suc k" and first: "idxs ! 0 = 0"
    and sorted: "sorted_wrt (<) idxs"
    and below: "\<forall>i\<in>set idxs. i < bucketBoundary bs k"
    and inner: "\<forall>j<k. bucketBoundary bs j \<le> idxs ! Suc j
                    \<and> idxs ! Suc j < bucketBoundary bs (Suc j)"
    by blast
  let ?sampled = "map ((!) points) idxs"
  obtain ax ay where avg: "nextBucketAverage points (bucketBoundary bs (k + 1))
      (min (bucketBoundary bs (k + 2)) (length points - 1)) = (ax, ay)"
    by (cases "nextBucketAverage points (bucketBoundary bs (k + 1))
      (min (bucketBoundary bs (k + 2)) (length points - 1))")
  let ?m = "selectMaxArea points (last ?sampled) ax ay
              (bucketBoundary bs k) (bucketBoundary bs (k + 1))"
  have m: "bucketBoundary bs k \<le> ?m \<and> ?m < bucketBoundary bs (Suc k)"
    using selectMaxArea_range [OF bucketBoundary_step [OF assms, of k]] by simp
  have step: "fold (lttbIteration points bs) [0..<Suc k] [points ! 0]
                = map ((!) points) (idxs @ [?m])"
    using run avg by (simp add: lttbIteration_def Let_def)
  have len': "length (idxs @ [?m]) = Suc (Suc k)" using len by simp
  have first': "(idxs @ [?m]) ! 0 = 0" using first len by (simp add: nth_append)
  have sorted': "sorted_wrt (<) (idxs @ [?m])"
    using sorted below m by (auto simp: sorted_wrt_append)
  have below': "\<forall>i\<in>set (idxs @ [?m]). i < bucketBoundary bs (Suc k)"
    using below m bucketBoundary_step [OF assms, of k] by auto
  have inner': "\<forall>j<Suc k. bucketBoundary bs j \<le> (idxs @ [?m]) ! Suc j
                    \<and> (idxs @ [?m]) ! Suc j < bucketBoundary bs (Suc j)"
  proof (intro allI impI)
    fix j assume "j < Suc k"
    show "bucketBoundary bs j \<le> (idxs @ [?m]) ! Suc j
                    \<and> (idxs @ [?m]) ! Suc j < bucketBoundary bs (Suc j)"
    proof (cases "j = k")
      case True
      then show ?thesis using m len by (simp add: nth_append)
    next
      case False
      with \<open>j < Suc k\<close> have "j < k" by simp
      then show ?thesis using inner len by (simp add: nth_append)
    qed
  qed
  from step len' first' sorted' below' inner' show ?case by blast
qed
lemma lttb_indices:
  assumes "threshold < length points" and "2 < threshold"
  shows "\<exists>idxs. downsampleLTTB points threshold = map ((!) points) idxs
           \<and> length idxs = threshold \<and> idxs ! 0 = 0
           \<and> idxs ! (threshold - 1) = length points - 1
           \<and> sorted_wrt (<) idxs
           \<and> (\<forall>i\<in>set idxs. i < length points)
           \<and> (\<forall>j<threshold - 2.
                 bucketBoundary (lttbBucketSize (length points) threshold) j \<le> idxs ! Suc j
                 \<and> idxs ! Suc j
                     < bucketBoundary (lttbBucketSize (length points) threshold) (Suc j))"
proof -
  let ?bs = "lttbBucketSize (length points) threshold"
  let ?k = "threshold - 2"
  let ?n = "length points"
  have bs: "1 \<le> ?bs" using assms by (rule lttbBucketSize_ge_1)
  obtain idxs where
    run: "fold (lttbIteration points ?bs) [0..<?k] [points ! 0] = map ((!) points) idxs"
    and len: "length idxs = Suc ?k" and first: "idxs ! 0 = 0"
    and sorted: "sorted_wrt (<) idxs"
    and below: "\<forall>i\<in>set idxs. i < bucketBoundary ?bs ?k"
    and inner: "\<forall>j<?k. bucketBoundary ?bs j \<le> idxs ! Suc j
                    \<and> idxs ! Suc j < bucketBoundary ?bs (Suc j)"
    using lttb_loop_indices [OF bs, of points ?k] by blast
  have last: "bucketBoundary ?bs ?k = ?n - 1"
    using assms by (rule bucketBoundary_last)
  let ?all = "idxs @ [?n - 1]"
  have out: "downsampleLTTB points threshold = map ((!) points) ?all"
    using assms run by (simp add: downsampleLTTB_def Let_def)
  have len': "length ?all = threshold" using len assms by simp
  have first': "?all ! 0 = 0" using first len by (simp add: nth_append)
  have "threshold - 1 = length idxs" using len assms by simp
  then have last': "?all ! (threshold - 1) = ?n - 1"
    by (simp only: nth_append_length)
  have sorted': "sorted_wrt (<) ?all"
    using sorted below last by (auto simp: sorted_wrt_append)
  have range: "\<forall>i\<in>set ?all. i < ?n"
    using below last assms by auto
  have inner': "\<forall>j<?k. bucketBoundary ?bs j \<le> ?all ! Suc j
                    \<and> ?all ! Suc j < bucketBoundary ?bs (Suc j)"
    using inner len by (simp add: nth_append)
  from out len' first' last' sorted' range inner' show ?thesis by blast
qed

lemma lttb_bucket_inside:
  assumes "threshold < n" and "2 < threshold" and "k < threshold - 2"
  shows "bucketBoundary (lttbBucketSize n threshold) (Suc k) \<le> n - 1"
proof -
  have "bucketBoundary (lttbBucketSize n threshold) (Suc k)
          \<le> bucketBoundary (lttbBucketSize n threshold) (threshold - 2)"
    using assms(3) by (intro bucketBoundary_mono lttbBucketSize_ge_1 assms(1,2)) simp
  then show ?thesis
    using bucketBoundary_last [OF assms(1,2)] by simp
qed

lemma map_nth_subseq:
  assumes "sorted_wrt (<) idxs" and "\<forall>i\<in>set idxs. i < length xs"
  shows "subseq (map ((!) xs) idxs) xs"
proof -
  have "set idxs \<subseteq> set [0..<length xs]" using assms(2) by auto
  then have "subseq idxs [0..<length xs]"
    using assms(1) by (rule sorted_subset_imp_subseq) simp
  then have "subseq (map ((!) xs) idxs) (map ((!) xs) [0..<length xs])"
    by (rule subseq_map)
  then show ?thesis by (simp add: map_nth)
qed

text \<open>
  Claim C9. For an input longer than the budget, and a budget above 2, \<open>downsampleLTTB\<close>
  returns exactly \<open>threshold\<close> points: the first input point, then for each of the
  \<open>threshold - 2\<close> iterations one input point taken from that iteration's bucket, then the
  last input point.
\<close>

theorem lttb_returns_budget_points:
  assumes "threshold < length points" and "2 < threshold"
  shows "length (downsampleLTTB points threshold) = threshold
       \<and> downsampleLTTB points threshold ! 0 = points ! 0
       \<and> downsampleLTTB points threshold ! (threshold - 1) = points ! (length points - 1)
       \<and> (\<forall>k<threshold - 2. \<exists>j.
             bucketBoundary (lttbBucketSize (length points) threshold) k \<le> j
             \<and> j < bucketBoundary (lttbBucketSize (length points) threshold) (Suc k)
             \<and> j < length points
             \<and> downsampleLTTB points threshold ! Suc k = points ! j)"
proof -
  let ?bs = "lttbBucketSize (length points) threshold"
  obtain idxs where
    out: "downsampleLTTB points threshold = map ((!) points) idxs"
    and len: "length idxs = threshold" and first: "idxs ! 0 = 0"
    and last: "idxs ! (threshold - 1) = length points - 1"
    and range: "\<forall>i\<in>set idxs. i < length points"
    and inner: "\<forall>j<threshold - 2. bucketBoundary ?bs j \<le> idxs ! Suc j
                    \<and> idxs ! Suc j < bucketBoundary ?bs (Suc j)"
    using lttb_indices [OF assms] by blast
  have a: "length (downsampleLTTB points threshold) = threshold"
    using out len by simp
  have b: "downsampleLTTB points threshold ! 0 = points ! 0"
    using out len first assms by simp
  have c: "downsampleLTTB points threshold ! (threshold - 1) = points ! (length points - 1)"
    using out len last assms by simp
  have d: "\<forall>k<threshold - 2. \<exists>j. bucketBoundary ?bs k \<le> j
             \<and> j < bucketBoundary ?bs (Suc k) \<and> j < length points
             \<and> downsampleLTTB points threshold ! Suc k = points ! j"
  proof (intro allI impI)
    fix k assume k: "k < threshold - 2"
    then have "Suc k < length idxs" using len by simp
    then have "idxs ! Suc k \<in> set idxs" by (rule nth_mem)
    then have "idxs ! Suc k < length points" using range by blast
    moreover have "downsampleLTTB points threshold ! Suc k = points ! (idxs ! Suc k)"
      using out \<open>Suc k < length idxs\<close> by simp
    ultimately show "\<exists>j. bucketBoundary ?bs k \<le> j
             \<and> j < bucketBoundary ?bs (Suc k) \<and> j < length points
             \<and> downsampleLTTB points threshold ! Suc k = points ! j"
      using inner k by blast
  qed
  from a b c d show ?thesis by blast
qed

theorem lttb_returns_budget_points_witness:
  "5 < length tenPoints \<and> (2::nat) < 5
   \<and> length (downsampleLTTB tenPoints 5) = 5
   \<and> downsampleLTTB tenPoints 5 ! 0 = tenPoints ! 0
   \<and> downsampleLTTB tenPoints 5 ! 4 = tenPoints ! 9
   \<and> downsampleLTTB tenPoints 5 = [pt 0 1, pt 1 5, pt 5 9, pt 6 1, pt 9 2]"
proof -
  have n: "5 < length tenPoints" by (simp add: tenPoints_def)
  have v: "downsampleLTTB tenPoints 5 = [pt 0 1, pt 1 5, pt 5 9, pt 6 1, pt 9 2]"
    by code_simp
  have "length (downsampleLTTB tenPoints 5) = 5
       \<and> downsampleLTTB tenPoints 5 ! 0 = tenPoints ! 0
       \<and> downsampleLTTB tenPoints 5 ! (5 - 1) = tenPoints ! (length tenPoints - 1)"
    using lttb_returns_budget_points [OF n] by simp
  moreover have "length tenPoints - 1 = 9" by (simp add: tenPoints_def)
  ultimately show ?thesis using n v by simp
qed

section \<open>Min-max bucketing: what the loop returns\<close>

lemma fold_scanStep_mem:
  "fst (fold scanStep xs acc) \<in> insert (fst acc) (set xs)
   \<and> fst (snd (fold scanStep xs acc)) \<in> insert (fst (snd acc)) (set xs)"
proof (induction xs arbitrary: acc)
  case Nil
  show ?case by simp
next
  case (Cons x xs)
  obtain a b va vb where acc: "acc = (a, b, va, vb)" by (cases acc) auto
  have "fst (scanStep x acc) \<in> {a, x}" "fst (snd (scanStep x acc)) \<in> {b, x}"
    by (simp_all add: acc scanStep_def Let_def)
  with Cons [of "scanStep x acc"] show ?case
    unfolding acc by auto
qed

lemma bucketOutput_props:
  assumes "bucket \<noteq> []"
  shows "\<exists>out. bucketOutput bucket = Some out \<and> set out \<subseteq> set bucket
           \<and> length out \<le> 2 \<and> sorted (map t out)"
proof (cases bucket rule: bucketOutput.cases)
  case 1
  with assms show ?thesis by simp
next
  case (2 p)
  then show ?thesis by simp
next
  case (3 p0 p1 rest)
  obtain mn mx vmn vmx where scan: "scanBucket p0 (p0 # p1 # rest) = (mn, mx, vmn, vmx)"
    by (cases "scanBucket p0 (p0 # p1 # rest)") auto
  have "mn \<in> set bucket" "mx \<in> set bucket"
    using fold_scanStep_mem [of "p0 # p1 # rest" "(p0, p0, channelSum p0, channelSum p0)"]
      scan 3
    by (auto simp: scanBucket_def)
  then show ?thesis
    unfolding 3 using scan by auto
qed

lemma ceiling_bucket_step:
  assumes "i < n" and "0 < bs"
  shows "1 + nat \<lceil>real (n - (i + bs)) / real bs\<rceil> \<le> nat \<lceil>real (n - i) / real bs\<rceil>"
proof (cases "i + bs \<le> n")
  case True
  then have "real (n - i) / real bs = real (n - (i + bs)) / real bs + 1"
    using assms by (simp add: field_simps of_nat_diff)
  then have "\<lceil>real (n - i) / real bs\<rceil> = \<lceil>real (n - (i + bs)) / real bs\<rceil> + 1"
    by (simp only: ceiling_add_one)
  moreover have "(0::real) \<le> real (n - (i + bs)) / real bs" by simp
  then have "0 \<le> \<lceil>real (n - (i + bs)) / real bs\<rceil>" by linarith
  ultimately show ?thesis by linarith
next
  case False
  have "0 < real (n - i) / real bs" using assms by simp
  then have "1 \<le> \<lceil>real (n - i) / real bs\<rceil>" by linarith
  then have one: "1 \<le> nat \<lceil>real (n - i) / real bs\<rceil>" by linarith
  have "n - (i + bs) = 0" using False by simp
  then have "nat \<lceil>real (n - (i + bs)) / real bs\<rceil> = 0" by simp
  with one show ?thesis by linarith
qed

lemma set_slice_take: "set (slice xs i j) \<subseteq> set (take j xs)"
proof -
  have "slice xs i j = drop i (take j xs)" by (simp add: slice_def drop_take)
  then show ?thesis by (simp add: set_drop_subset)
qed

lemma set_slice_drop: "set (slice xs i j) \<subseteq> set (drop i xs)"
  by (simp add: slice_def set_take_subset)

lemma sorted_take_drop:
  assumes "sorted (map f xs)" and "x \<in> set (take j xs)" and "y \<in> set (drop j xs)"
  shows "f x \<le> f y"
proof -
  have "sorted (map f (take j xs) @ map f (drop j xs))"
    using assms(1) by (simp flip: map_append)
  then show ?thesis using assms(2,3) by (auto simp: sorted_append)
qed

lemma minMaxLoop_props:
  assumes "0 < bs"
  shows "\<exists>out. minMaxLoop points bs i acc = Some (acc @ out)
           \<and> length out \<le> 2 * nat \<lceil>real (length points - i) / real bs\<rceil>
           \<and> set out \<subseteq> set (drop i points)
           \<and> (sorted (map t points) \<longrightarrow> sorted (map t out))"
proof (induction "length points - i" arbitrary: i acc rule: less_induct)
  case less
  show ?case
  proof (cases "i < length points")
    case False
    then have "minMaxLoop points bs i acc = Some (acc @ [])"
      by (simp add: minMaxLoop_done)
    then show ?thesis by (intro exI [of _ "[]"]) simp
  next
    case True
    let ?j = "min (i + bs) (length points)"
    let ?bucket = "slice points i ?j"
    have "?bucket \<noteq> []"
      using True assms by (simp add: slice_def)
    then obtain out1 where o1: "bucketOutput ?bucket = Some out1"
      and s1: "set out1 \<subseteq> set ?bucket" and l1: "length out1 \<le> 2"
      and t1: "sorted (map t out1)"
      using bucketOutput_props by blast
    have step: "minMaxLoop points bs i acc = minMaxLoop points bs (i + bs) (acc @ out1)"
      using True assms o1 by (rule minMaxLoop_step)
    have "length points - (i + bs) < length points - i"
      using True assms by simp
    from less [OF this, of "acc @ out1"]
    obtain out2 where r2: "minMaxLoop points bs (i + bs) (acc @ out1) = Some ((acc @ out1) @ out2)"
      and l2: "length out2 \<le> 2 * nat \<lceil>real (length points - (i + bs)) / real bs\<rceil>"
      and s2: "set out2 \<subseteq> set (drop (i + bs) points)"
      and t2: "sorted (map t points) \<longrightarrow> sorted (map t out2)"
      by blast
    have a: "minMaxLoop points bs i acc = Some (acc @ (out1 @ out2))"
      using step r2 by simp
    have b: "length (out1 @ out2) \<le> 2 * nat \<lceil>real (length points - i) / real bs\<rceil>"
      using l1 l2 ceiling_bucket_step [OF True assms] unfolding length_append by linarith
    have "set (drop (i + bs) points) \<subseteq> set (drop i points)"
      by (rule set_drop_subset_set_drop) simp
    then have c: "set (out1 @ out2) \<subseteq> set (drop i points)"
      using s1 s2 set_slice_drop [of points i ?j] by auto
    have d: "sorted (map t (out1 @ out2))" if srt: "sorted (map t points)"
    proof -
      have "set (drop (i + bs) points) \<subseteq> set (drop ?j points)"
        by (rule set_drop_subset_set_drop) simp
      then have "t x \<le> t y" if "x \<in> set out1" "y \<in> set out2" for x y
        using that s1 s2 set_slice_take [of points i ?j]
          sorted_take_drop [OF srt, of x ?j y]
        by blast
      then show ?thesis
        using t1 t2 srt by (auto simp: sorted_append)
    qed
    from a b c d show ?thesis by blast
  qed
qed

lemma minMaxBucketSize_pos:
  assumes "targetPoints < n"
  shows "0 < minMaxBucketSize n targetPoints"
proof (cases "targetPoints = 0")
  case True
  then show ?thesis using assms by (simp add: minMaxBucketSize_def)
next
  case False
  then have "0 < real n / real targetPoints" using assms by simp
  then have "0 < \<lceil>real n / real targetPoints\<rceil>" by linarith
  then show ?thesis using False by (simp add: minMaxBucketSize_def)
qed

lemma minMax_bucket_count:
  assumes "0 < targetPoints"
  shows "nat \<lceil>real n / real (minMaxBucketSize n targetPoints)\<rceil> \<le> targetPoints"
proof (cases "n = 0")
  case True
  then show ?thesis by simp
next
  case False
  let ?bs = "minMaxBucketSize n targetPoints"
  have "0 < real n / real targetPoints" using False assms by simp
  then have pos: "0 < \<lceil>real n / real targetPoints\<rceil>" by linarith
  then have bs: "real ?bs = real_of_int \<lceil>real n / real targetPoints\<rceil>"
    using assms by (simp add: minMaxBucketSize_def)
  have "real n / real targetPoints \<le> real ?bs"
    unfolding bs by (rule le_of_int_ceiling)
  then have "real n \<le> real targetPoints * real ?bs"
    using assms by (simp add: field_simps)
  moreover have "0 < real ?bs" using pos bs by simp
  ultimately have "real n / real ?bs \<le> real targetPoints"
    by (simp add: field_simps)
  then have "\<lceil>real n / real ?bs\<rceil> \<le> int targetPoints"
    by (simp add: ceiling_le_iff)
  then show ?thesis by (simp only: nat_le_iff)
qed

lemma downsampleMinMax_props:
  assumes "targetPoints < length points"
  shows "\<exists>out. downsampleMinMax points targetPoints = Some out
           \<and> length out
               \<le> 2 * nat \<lceil>real (length points)
                            / real (minMaxBucketSize (length points) targetPoints)\<rceil>
           \<and> set out \<subseteq> set points
           \<and> (sorted (map t points) \<longrightarrow> sorted (map t out))"
  using minMaxLoop_props [OF minMaxBucketSize_pos [OF assms], of points 0 "[]"] assms
  by (simp add: downsampleMinMax_def)
section \<open>Downsampling: endpoints, order and length\<close>

text \<open>
  Claim C2, as amended. For an input longer than the budget, and a budget above 2:
  \<open>downsampleLTTB\<close> returns at most \<open>budget\<close> points, the first and the last of them the
  first and last input points, and its output is a subsequence of the input (input points
  in input order); on 10 points with budget 5 it returns 5 points, among them \<open>input[0]\<close> and
  \<open>input[9]\<close>. \<open>downsampleMinMax\<close> returns at most two points per bucket, that is at most
  \<open>2 * ceil (n / ceil (n / targetPoints))\<close>, which is at most \<open>2 * targetPoints\<close>; each is an
  input point, and if the input is ordered by time so is the output. It need not contain
  the first or the last input point.
\<close>

theorem downsample_endpoints_order_length:
  assumes "budget < length points" and "2 < budget"
  shows "length (downsampleLTTB points budget) \<le> budget
       \<and> hd (downsampleLTTB points budget) = hd points
       \<and> last (downsampleLTTB points budget) = last points
       \<and> subseq (downsampleLTTB points budget) points
       \<and> (case downsampleMinMax points budget of
             None \<Rightarrow> False
           | Some out \<Rightarrow>
               length out
                 \<le> 2 * nat \<lceil>real (length points)
                              / real (nat \<lceil>real (length points) / real budget\<rceil>)\<rceil>
               \<and> length out \<le> 2 * budget
               \<and> set out \<subseteq> set points
               \<and> (sorted (map t points) \<longrightarrow> sorted (map t out)))
       \<and> (length points = 10 \<and> budget = 5 \<longrightarrow>
             length (downsampleLTTB points budget) = 5
             \<and> points ! 0 \<in> set (downsampleLTTB points budget)
             \<and> points ! 9 \<in> set (downsampleLTTB points budget))"
proof -
  obtain idxs where
    out: "downsampleLTTB points budget = map ((!) points) idxs"
    and len: "length idxs = budget" and first: "idxs ! 0 = 0"
    and last: "idxs ! (budget - 1) = length points - 1"
    and sorted: "sorted_wrt (<) idxs"
    and range: "\<forall>i\<in>set idxs. i < length points"
    using lttb_indices [OF assms] by blast
  have ne: "idxs \<noteq> []" "points \<noteq> []" using len assms by auto
  have a: "length (downsampleLTTB points budget) = budget"
    using out len by simp
  have "hd idxs = 0" using first ne by (simp add: hd_conv_nth)
  then have b: "hd (downsampleLTTB points budget) = hd points"
    using out ne by (simp add: hd_map hd_conv_nth)
  have "last idxs = length points - 1"
    using last len ne by (simp add: last_conv_nth)
  then have c: "last (downsampleLTTB points budget) = last points"
    using out ne by (simp add: last_map last_conv_nth)
  have d: "subseq (downsampleLTTB points budget) points"
    unfolding out using sorted range by (rule map_nth_subseq)
  obtain mm where mm: "downsampleMinMax points budget = Some mm"
    and mlen: "length mm
       \<le> 2 * nat \<lceil>real (length points) / real (minMaxBucketSize (length points) budget)\<rceil>"
    and mset: "set mm \<subseteq> set points"
    and msorted: "sorted (map t points) \<longrightarrow> sorted (map t mm)"
    using downsampleMinMax_props [OF assms(1)] by blast
  have size: "minMaxBucketSize (length points) budget
                = nat \<lceil>real (length points) / real budget\<rceil>"
    using assms by (simp add: minMaxBucketSize_def)
  have "nat \<lceil>real (length points) / real (minMaxBucketSize (length points) budget)\<rceil>
          \<le> budget"
    using assms by (intro minMax_bucket_count) simp
  with mlen have mlen': "length mm \<le> 2 * budget" by linarith
  have e: "case downsampleMinMax points budget of
             None \<Rightarrow> False
           | Some out \<Rightarrow>
               length out
                 \<le> 2 * nat \<lceil>real (length points)
                              / real (nat \<lceil>real (length points) / real budget\<rceil>)\<rceil>
               \<and> length out \<le> 2 * budget
               \<and> set out \<subseteq> set points
               \<and> (sorted (map t points) \<longrightarrow> sorted (map t out))"
    using mm mlen mlen' mset msorted unfolding size by simp
  have "points ! 0 \<in> set (downsampleLTTB points budget)"
    using b ne a assms by (metis hd_conv_nth hd_in_set length_0_conv not_less_zero)
  moreover have "last points \<in> set (downsampleLTTB points budget)"
    using c a assms by (metis last_in_set length_0_conv not_less_zero)
  ultimately have f: "length points = 10 \<and> budget = 5 \<longrightarrow>
             length (downsampleLTTB points budget) = 5
             \<and> points ! 0 \<in> set (downsampleLTTB points budget)
             \<and> points ! 9 \<in> set (downsampleLTTB points budget)"
    using a ne by (auto simp: last_conv_nth)
  from a b c d e f show ?thesis by simp
qed

theorem downsample_endpoints_order_length_witness:
  "5 < length tenPoints \<and> (2::nat) < 5 \<and> sorted (map t tenPoints)
   \<and> length tenPoints = 10
   \<and> length (downsampleLTTB tenPoints 5) = 5
   \<and> tenPoints ! 0 \<in> set (downsampleLTTB tenPoints 5)
   \<and> tenPoints ! 9 \<in> set (downsampleLTTB tenPoints 5)
   \<and> subseq (downsampleLTTB tenPoints 5) tenPoints
   \<and> downsampleMinMax tenPoints 5 \<noteq> None
   \<and> length (the (downsampleMinMax tenPoints 5)) \<le> 2 * 5
   \<and> sorted (map t (the (downsampleMinMax tenPoints 5)))"
proof -
  have n: "5 < length tenPoints" and n10: "length tenPoints = 10"
    by (simp_all add: tenPoints_def)
  have s: "sorted (map t tenPoints)"
    by (simp add: tenPoints_def pt_def)
  note w = downsample_endpoints_order_length [OF n, simplified]
  obtain mm where mm: "downsampleMinMax tenPoints 5 = Some mm"
    using w by (cases "downsampleMinMax tenPoints 5") auto
  have "length mm \<le> 2 * 5" "sorted (map t mm)"
    using w s mm by simp_all
  then have "downsampleMinMax tenPoints 5 \<noteq> None"
    "length (the (downsampleMinMax tenPoints 5)) \<le> 2 * 5"
    "sorted (map t (the (downsampleMinMax tenPoints 5)))"
    using mm by simp_all
  moreover have "length (downsampleLTTB tenPoints 5) = 5"
    "tenPoints ! 0 \<in> set (downsampleLTTB tenPoints 5)"
    "tenPoints ! 9 \<in> set (downsampleLTTB tenPoints 5)"
    "subseq (downsampleLTTB tenPoints 5) tenPoints"
    using w n10 by simp_all
  ultimately show ?thesis using n n10 s by simp
qed

text \<open>
  The claim as stated fails for \<open>downsampleMinMax\<close>. On twelve points with the budget 5 the
  bucket size is \<open>ceil (12 / 5) = 3\<close>, so there are four buckets and eight output points,
  more than \<open>2 * ceil (12 / 5) = 6\<close>; and neither the first nor the last input point is
  among them, since neither is the minimum or the maximum of its bucket.
\<close>

theorem minMax_endpoints_counterexample:
  "5 < length twelvePoints
   \<and> downsampleMinMax twelvePoints 5
       = Some [pt 1 1, pt 2 3, pt 4 1, pt 5 3, pt 7 1, pt 8 3, pt 9 1, pt 10 3]
   \<and> \<not> length (the (downsampleMinMax twelvePoints 5))
         \<le> 2 * nat \<lceil>real (length twelvePoints) / real 5\<rceil>
   \<and> hd twelvePoints \<notin> set (the (downsampleMinMax twelvePoints 5))
   \<and> last twelvePoints \<notin> set (the (downsampleMinMax twelvePoints 5))"
proof -
  have d: "downsampleMinMax twelvePoints 5
       = Some [pt 1 1, pt 2 3, pt 4 1, pt 5 3, pt 7 1, pt 8 3, pt 9 1, pt 10 3]"
    by (simp add: downsampleMinMax_def minMaxBucketSize_def twelvePoints_def slice_def
        scanBucket_def scanStep_def channelSum_def pt_def)
  have "hd twelvePoints = pt 0 2" "last twelvePoints = pt 11 2" "length twelvePoints = 12"
    by (simp_all add: twelvePoints_def)
  then show ?thesis
    unfolding d by (simp add: pt_def)
qed

end
